theory Spec2Isabelle
  imports Complex_Main "HOL-Library.Word" "HOL-Library.Sublist" "HOL-Library.Log_Nat"
begin

section \<open>JavaScript data\<close>

subsection \<open>Strings\<close>

text \<open>
  A JavaScript string is a sequence of 16-bit code units. \<open>js\<close> writes an ASCII literal
  as such a sequence, so that \<open>js ''items''\<close> is the property name \<open>"items"\<close>.
\<close>

type_synonym codeunit = "16 word"
type_synonym jsstring = "codeunit list"

definition js :: "string \<Rightarrow> jsstring" where
  "js s = map (\<lambda>c. of_nat (of_char c)) s"

subsection \<open>Numbers\<close>

text \<open>
  A Number is a double: not-a-number, the two infinities, negative zero, or a finite
  value, kept here as the rational it denotes (\<open>Finite 0\<close> is positive zero).
\<close>

datatype jsnum = NaN | PosInfinity | NegInfinity | NegZero | Finite rat

text \<open>\<open>Number.isFinite(n)\<close> and the comparison \<open>n > 0\<close>.\<close>

fun Number_isFinite :: "jsnum \<Rightarrow> bool" where
  "Number_isFinite (Finite r) = True"
| "Number_isFinite NegZero = True"
| "Number_isFinite NaN = False"
| "Number_isFinite PosInfinity = False"
| "Number_isFinite NegInfinity = False"

fun gt_zero :: "jsnum \<Rightarrow> bool" where
  "gt_zero (Finite r) = (0 < r)"
| "gt_zero PosInfinity = True"
| "gt_zero NegZero = False"
| "gt_zero NaN = False"
| "gt_zero NegInfinity = False"

text \<open>\<open>n <= 0\<close>, as in \<open>processId <= 0\<close>: false for \<open>NaN\<close>.\<close>

fun le_zero :: "jsnum \<Rightarrow> bool" where
  "le_zero (Finite r) = (r \<le> 0)"
| "le_zero NegInfinity = True"
| "le_zero NegZero = True"
| "le_zero NaN = False"
| "le_zero PosInfinity = False"

subsection \<open>Values\<close>

text \<open>
  The values a decoded response body can be: what \<open>JSON.parse\<close> builds, a string, and
  \<open>undefined\<close> (the value of a property that is absent). An object is the list of its
  own properties in insertion order; a lookup takes the first entry of a name.
\<close>

datatype jsval =
    JUndefined
  | JNull
  | JBool bool
  | JNum jsnum
  | JStr jsstring
  | JArr "jsval list"
  | JObj "(jsstring \<times> jsval) list"

fun typeof :: "jsval \<Rightarrow> string" where
  "typeof JUndefined = ''undefined''"
| "typeof JNull = ''object''"
| "typeof (JBool b) = ''boolean''"
| "typeof (JNum n) = ''number''"
| "typeof (JStr s) = ''string''"
| "typeof (JArr xs) = ''object''"
| "typeof (JObj kvs) = ''object''"

fun Array_isArray :: "jsval \<Rightarrow> bool" where
  "Array_isArray (JArr xs) = True"
| "Array_isArray JUndefined = False"
| "Array_isArray JNull = False"
| "Array_isArray (JBool b) = False"
| "Array_isArray (JNum n) = False"
| "Array_isArray (JStr s) = False"
| "Array_isArray (JObj kvs) = False"

text \<open>
  \<open>o.name\<close> for the four names the program reads (\<open>items\<close>, \<open>total\<close>, \<open>page\<close>,
  \<open>pageSize\<close>), on a value that passed \<open>isRecord\<close>: an own property of an object;
  an array has no property of these names, neither own nor inherited.
\<close>

fun get_prop :: "jsval \<Rightarrow> jsstring \<Rightarrow> jsval" where
  "get_prop (JObj kvs) k = (case map_of kvs k of None \<Rightarrow> JUndefined | Some v \<Rightarrow> v)"
| "get_prop (JArr xs) k = JUndefined"
| "get_prop JUndefined k = JUndefined"
| "get_prop JNull k = JUndefined"
| "get_prop (JBool b) k = JUndefined"
| "get_prop (JNum n) k = JUndefined"
| "get_prop (JStr s) k = JUndefined"

section \<open>Shape guards\<close>

definition isRecord :: "jsval \<Rightarrow> bool" where
  "isRecord x = (typeof x = ''object'' \<and> x \<noteq> JNull)"

definition hasItems :: "jsval \<Rightarrow> bool" where
  "hasItems x = (isRecord x \<and> Array_isArray (get_prop x (js ''items'')))"

definition isPaged :: "jsval \<Rightarrow> bool" where
  "isPaged x =
     (if \<not> isRecord x then False
      else let obj = x in
        typeof (get_prop obj (js ''total'')) = ''number'' \<and>
        typeof (get_prop obj (js ''page'')) = ''number'' \<and>
        typeof (get_prop obj (js ''pageSize'')) = ''number'' \<and>
        Array_isArray (get_prop obj (js ''items'')))"

text \<open>The two example bodies of the specification.\<close>

definition paged_example :: jsval where
  "paged_example =
     JObj [(js ''total'', JNum (Finite 1)), (js ''page'', JNum (Finite 1)),
           (js ''pageSize'', JNum (Finite 20)), (js ''items'', JArr [])]"

definition items_only_example :: jsval where
  "items_only_example = JObj [(js ''items'', JArr [])]"

definition items_12_example :: jsval where
  "items_12_example = JObj [(js ''items'', JArr [JNum (Finite 1), JNum (Finite 2)])]"

definition total_only_example :: jsval where
  "total_only_example = JObj [(js ''total'', JNum (Finite 1))]"

section \<open>String and number builtins\<close>

text \<open>
  \<open>s.includes(t)\<close>: some position of \<open>s\<close>, from 0 on, at which \<open>t\<close> matches
  code unit by code unit (case-sensitive).
\<close>

fun starts_with :: "jsstring \<Rightarrow> jsstring \<Rightarrow> bool" where
  "starts_with s [] = True"
| "starts_with [] (c # t) = False"
| "starts_with (d # s) (c # t) = (d = c \<and> starts_with s t)"

fun String_includes :: "jsstring \<Rightarrow> jsstring \<Rightarrow> bool" where
  "String_includes [] t = starts_with [] t"
| "String_includes (d # s) t = (starts_with (d # s) t \<or> String_includes s t)"

text \<open>
  \<open>s.split(sep)\<close> for a separator of one code unit and no limit: the input is scanned
  once, a piece ends at each separator, and the empty string gives one empty piece.
\<close>

fun split_scan :: "codeunit \<Rightarrow> jsstring \<Rightarrow> jsstring \<Rightarrow> jsstring list" where
  "split_scan sep cur [] = [rev cur]"
| "split_scan sep cur (c # s) =
     (if c = sep then rev cur # split_scan sep [] s else split_scan sep (c # cur) s)"

definition String_split :: "jsstring \<Rightarrow> codeunit \<Rightarrow> jsstring list" where
  "String_split s sep = split_scan sep [] s"

definition comma :: codeunit where
  "comma = 44"

text \<open>
  White space and line terminators, as \<open>trim\<close> and \<open>parseInt\<close> strip them: TAB, LF, VT,
  FF, CR, SP, NBSP, U+1680, U+2000 to U+200A, U+2028, U+2029, U+202F, U+205F, U+3000
  and U+FEFF.
\<close>

definition is_whitespace :: "codeunit \<Rightarrow> bool" where
  "is_whitespace c =
     (c \<in> set [9, 10, 11, 12, 13, 32, 160, 5760, 8232, 8233, 8239, 8287, 12288, 65279]
      \<or> (8192 \<le> c \<and> c \<le> 8202))"

definition trim_start :: "jsstring \<Rightarrow> jsstring" where
  "trim_start s = dropWhile is_whitespace s"

definition trim :: "jsstring \<Rightarrow> jsstring" where
  "trim s = rev (dropWhile is_whitespace (rev (trim_start s)))"

definition is_digit :: "codeunit \<Rightarrow> bool" where
  "is_digit c = (48 \<le> c \<and> c \<le> 57)"

definition digit_value :: "codeunit \<Rightarrow> int" where
  "digit_value c = uint c - 48"

definition digits_value :: "jsstring \<Rightarrow> int" where
  "digits_value ds = foldl (\<lambda>a c. 10 * a + digit_value c) 0 ds"

text \<open>
  The Number nearest to a positive integer, as a magnitude: exact below \<open>2^53\<close>, else
  rounded to 53 significant bits, a tie going to the even significand. A magnitude of
  \<open>2^1024\<close> or more is an infinity.
\<close>

definition round_to_double :: "int \<Rightarrow> int" where
  "round_to_double m =
     (if m < 2 ^ 53 then m
      else let e = nat (bitlen m - 53);
               q = m div 2 ^ e;
               r = m mod 2 ^ e;
               h = 2 ^ (e - 1);
               q' = (if h < r \<or> (r = h \<and> odd q) then q + 1 else q)
           in q' * 2 ^ e)"

definition Number_of_int :: "bool \<Rightarrow> int \<Rightarrow> jsnum" where
  "Number_of_int negative m =
     (let v = round_to_double m in
      if 2 ^ 1024 \<le> v then (if negative then NegInfinity else PosInfinity)
      else Finite (if negative then - of_int v else of_int v))"

text \<open>
  \<open>parseInt(s, 10)\<close>: leading white space is skipped, one sign is read, then the longest
  run of decimal digits; whatever follows is ignored. No digit gives \<open>NaN\<close>; the value
  zero keeps the sign; any other value is converted to the nearest Number.
\<close>

definition parseInt :: "jsstring \<Rightarrow> jsnum" where
  "parseInt s =
     (let S = trim_start s;
          negative = (case S of [] \<Rightarrow> False | c # r \<Rightarrow> c = 45);
          S' = (case S of [] \<Rightarrow> [] | c # r \<Rightarrow> if c = 43 \<or> c = 45 then r else S);
          Z = takeWhile is_digit S'
      in if Z = [] then NaN
         else let mathInt = digits_value Z in
           if mathInt = 0 then (if negative then NegZero else Finite 0)
           else Number_of_int negative mathInt)"

section \<open>The selected-ids parser\<close>

definition selectedIdList :: "jsstring \<Rightarrow> jsnum list" where
  "selectedIdList selectedIds =
     filter (\<lambda>n. Number_isFinite n \<and> gt_zero n)
       (map (\<lambda>s. parseInt (trim s)) (String_split selectedIds comma))"

section \<open>The request dispatcher\<close>

text \<open>
  What a rejected promise or a \<open>throw\<close> carries: an instance of \<open>Error\<close> with its
  message, or another value, kept as what \<open>String(e)\<close> does on it (a string, or a throw
  of its own).
\<close>

datatype thrown = ErrorInstance jsstring | NonError "thrown + jsstring"

datatype reqbody = TextBody jsstring | FormDataBody "(jsstring \<times> jsstring) list"

record RequestInit =
  init_method :: "jsstring option"
  init_headers :: "(jsstring \<times> jsstring) list option"
  init_body :: "reqbody option"

record fetch_options =
  fo_method :: "jsstring option"
  fo_headers :: "(jsstring \<times> jsstring) list"
  fo_body :: "reqbody option"
  fo_credentials :: jsstring

text \<open>
  A response as the dispatcher reads it: the status code, the \<open>get\<close> method of its
  headers, and what reading the body to the end gives (the text, or a rejection).
\<close>

record response =
  res_status :: nat
  res_headers_get :: "jsstring \<Rightarrow> jsstring option"
  res_text :: "thrown + jsstring"

text \<open>The \<open>ok\<close> getter of a response, as the Fetch standard defines it.\<close>

definition res_ok :: "response \<Rightarrow> bool" where
  "res_ok res = (200 \<le> res_status res \<and> res_status res \<le> 299)"

text \<open>
  The builtins the program calls and does not define: the network, the JSON codec
  (\<open>JSON.stringify(v, null, indent)\<close>, whose result may be \<open>undefined\<close>), \<open>String(v)\<close>,
  \<open>encodeURIComponent\<close> and the conversion of a Number to a string.
\<close>

record platform =
  fetch :: "jsstring \<Rightarrow> fetch_options \<Rightarrow> thrown + response"
  JSON_parse :: "jsstring \<Rightarrow> thrown + jsval"
  JSON_stringify :: "jsval \<Rightarrow> nat \<Rightarrow> thrown + jsstring option"
  String_of :: "jsval \<Rightarrow> jsstring"
  encodeURIComponent :: "jsstring \<Rightarrow> thrown + jsstring"
  Number_toString :: "jsnum \<Rightarrow> jsstring"

text \<open>\<open>res.json()\<close> reads the body as \<open>res.text()\<close> does and parses it.\<close>

definition res_json :: "platform \<Rightarrow> response \<Rightarrow> thrown + jsval" where
  "res_json env res =
     (case res_text res of Inl e \<Rightarrow> Inl e | Inr t \<Rightarrow> JSON_parse env t)"

record ApiResult =
  ok :: bool
  status :: nat
  body :: jsval

text \<open>
  The options \<open>apiFetch\<close> hands to \<open>fetch\<close>: those of \<open>init\<close>, its headers copied
  (none when \<open>init\<close> has none), and the credentials always included.
\<close>

definition request_options :: "RequestInit option \<Rightarrow> fetch_options" where
  "request_options init =
     \<lparr> fo_method = (case init of None \<Rightarrow> None | Some i \<Rightarrow> init_method i),
       fo_headers = (case init of None \<Rightarrow> []
                     | Some i \<Rightarrow> (case init_headers i of None \<Rightarrow> [] | Some h \<Rightarrow> h)),
       fo_body = (case init of None \<Rightarrow> None | Some i \<Rightarrow> init_body i),
       fo_credentials = js ''include'' \<rparr>"

definition content_type_of :: "response \<Rightarrow> jsstring" where
  "content_type_of res =
     (case res_headers_get res (js ''content-type'') of None \<Rightarrow> [] | Some v \<Rightarrow> v)"

definition apiFetch :: "platform \<Rightarrow> jsstring \<Rightarrow> RequestInit option \<Rightarrow> thrown + ApiResult" where
  "apiFetch env path init =
     (case fetch env path (request_options init) of
        Inl e \<Rightarrow> Inl e
      | Inr res \<Rightarrow>
          (let ct = content_type_of res
           in case (if String_includes ct (js ''application/json'') then res_json env res
                    else (case res_text res of Inl e \<Rightarrow> Inl e | Inr t \<Rightarrow> Inr (JStr t))) of
                Inl e \<Rightarrow> Inl e
              | Inr b \<Rightarrow> Inr \<lparr> ok = res_ok res, status = res_status res, body = b \<rparr>))"

section \<open>The console\<close>

subsection \<open>State\<close>

text \<open>
  The state hooks of \<open>App\<close>. A file of the file picker is kept as its name; \<open>files\<close>
  is \<open>None\<close> while the picker has given no list.
\<close>

record console_state =
  log_st :: jsstring
  busy :: bool
  username :: jsstring
  password :: jsstring
  q_st :: jsstring
  page :: jsnum
  pageSize :: jsnum
  books :: "jsval list"
  files :: "jsstring list option"
  processId :: jsnum
  selectedIds :: jsstring
  searchQ :: jsstring
  searchItems :: "jsval list"

definition initial_state :: console_state where
  "initial_state =
     \<lparr> log_st = [], busy = False, username = js ''admin'', password = [], q_st = [],
       page = Finite 1, pageSize = Finite 20, books = [], files = None,
       processId = Finite 0, selectedIds = [], searchQ = [], searchItems = [] \<rparr>"

subsection \<open>Formatting and the log\<close>

definition newline :: jsstring where
  "newline = [10]"

text \<open>
  \<open>formatBody\<close> gives a string, or \<open>undefined\<close> (\<open>None\<close>) when \<open>JSON.stringify\<close> does;
  inside a template literal \<open>undefined\<close> reads \<open>"undefined"\<close>.
\<close>

definition formatBody :: "platform \<Rightarrow> jsval \<Rightarrow> jsstring option" where
  "formatBody env b =
     (case b of
        JStr s \<Rightarrow> Some s
      | _ \<Rightarrow> (case JSON_stringify env b 2 of
                Inr r \<Rightarrow> r
              | Inl e \<Rightarrow> Some (String_of env b)))"

definition in_template :: "jsstring option \<Rightarrow> jsstring" where
  "in_template v = (case v of None \<Rightarrow> js ''undefined'' | Some s \<Rightarrow> s)"

definition log_block :: "platform \<Rightarrow> jsstring \<Rightarrow> ApiResult \<Rightarrow> jsstring" where
  "log_block env title r =
     newline @ js ''=== '' @ title @ js '' ==='' @ newline @
     js ''Status: '' @ Number_toString env (Finite (of_nat (status r))) @ newline @
     js ''Body:'' @ newline @ in_template (formatBody env (body r)) @ newline"

definition appendLog :: "platform \<Rightarrow> jsstring \<Rightarrow> ApiResult \<Rightarrow> console_state \<Rightarrow> console_state" where
  "appendLog env title r st = st\<lparr>log_st := log_block env title r @ log_st st\<rparr>"

definition error_block :: "jsstring \<Rightarrow> jsstring \<Rightarrow> jsstring" where
  "error_block title msg =
     newline @ js ''=== '' @ title @ js '' ERROR ==='' @ newline @ msg @ newline"

subsection \<open>The run helper\<close>

text \<open>
  What the function handed to \<open>run\<close> does once awaited: it returns an envelope or
  throws, and it may have set state on the way.
\<close>

type_synonym action = "console_state \<Rightarrow> (thrown + ApiResult) \<times> console_state"

text \<open>\<open>e instanceof Error ? e.message : String(e)\<close>; the conversion can throw in turn.\<close>

definition error_message :: "thrown \<Rightarrow> thrown + jsstring" where
  "error_message e = (case e of ErrorInstance m \<Rightarrow> Inr m | NonError r \<Rightarrow> r)"

definition run_begin :: "console_state \<Rightarrow> console_state" where
  "run_begin st = st\<lparr>busy := True\<rparr>"

text \<open>
  The \<open>try\<close>, \<open>catch\<close> and \<open>finally\<close> of \<open>run\<close>, from the outcome of \<open>await fn()\<close>
  on. The first component is what leaves \<open>run\<close> as a rejection, if anything does.
\<close>

definition run_end ::
  "platform \<Rightarrow> jsstring \<Rightarrow> thrown + ApiResult \<Rightarrow> console_state \<Rightarrow> thrown option \<times> console_state" where
  "run_end env title outcome st =
     (case outcome of
        Inr r \<Rightarrow> (None, (appendLog env title r st)\<lparr>busy := False\<rparr>)
      | Inl e \<Rightarrow>
          (case error_message e of
             Inr msg \<Rightarrow> (None, st\<lparr>log_st := error_block title msg @ log_st st, busy := False\<rparr>)
           | Inl e' \<Rightarrow> (Some e', st\<lparr>busy := False\<rparr>)))"

definition run ::
  "platform \<Rightarrow> jsstring \<Rightarrow> action \<Rightarrow> console_state \<Rightarrow> thrown option \<times> console_state" where
  "run env title fn st =
     (case fn (run_begin st) of (outcome, st') \<Rightarrow> run_end env title outcome st')"

subsection \<open>The buttons\<close>

datatype button =
    Health | OpenSwagger | ClearLog | Login | Me | Logout | LoadBooks | Upload
  | ProcessOne | ProcessSelected | SearchGet | SearchPost | LoadStats

definition disabled :: "console_state \<Rightarrow> button \<Rightarrow> bool" where
  "disabled st b =
     (case b of
        Upload \<Rightarrow>
          busy st \<or> files st = None \<or> (case files st of None \<Rightarrow> False | Some fs \<Rightarrow> length fs = 0)
      | ProcessOne \<Rightarrow> busy st \<or> le_zero (processId st)
      | ProcessSelected \<Rightarrow> busy st \<or> length (selectedIdList (selectedIds st)) = 0
      | SearchGet \<Rightarrow> busy st \<or> length (trim (searchQ st)) = 0
      | SearchPost \<Rightarrow> busy st \<or> length (trim (searchQ st)) = 0
      | _ \<Rightarrow> busy st)"

definition returning :: "thrown + ApiResult \<Rightarrow> action" where
  "returning r = (\<lambda>st. (r, st))"

text \<open>\<open>r.body.items\<close> of a body that passed a guard; the guard makes it an array.\<close>

definition items_of :: "jsval \<Rightarrow> jsval list" where
  "items_of b = (case get_prop b (js ''items'') of JArr xs \<Rightarrow> xs | _ \<Rightarrow> [])"

definition json_headers :: "(jsstring \<times> jsstring) list" where
  "json_headers = [(js ''Content-Type'', js ''application/json'')]"

definition post_json :: "platform \<Rightarrow> jsstring \<Rightarrow> jsval \<Rightarrow> thrown + ApiResult" where
  "post_json env path v =
     (case JSON_stringify env v 0 of
        Inl e \<Rightarrow> Inl e
      | Inr text \<Rightarrow>
          apiFetch env path
            (Some \<lparr> init_method = Some (js ''POST''), init_headers = Some json_headers,
                    init_body = map_option TextBody text \<rparr>))"

definition post_plain :: "platform \<Rightarrow> jsstring \<Rightarrow> reqbody option \<Rightarrow> thrown + ApiResult" where
  "post_plain env path b =
     apiFetch env path
       (Some \<lparr> init_method = Some (js ''POST''), init_headers = None, init_body = b \<rparr>)"

definition loadBooks_fn :: "platform \<Rightarrow> console_state \<Rightarrow> action" where
  "loadBooks_fn env cap st =
     (case encodeURIComponent env (q_st cap) of
        Inl e \<Rightarrow> (Inl e, st)
      | Inr eq \<Rightarrow>
          (case apiFetch env
                  (js ''/api/books?Q='' @ eq @ js ''&Page='' @ Number_toString env (page cap) @
                   js ''&PageSize='' @ Number_toString env (pageSize cap)) None of
             Inl e \<Rightarrow> (Inl e, st)
           | Inr r \<Rightarrow>
               (Inr r, if ok r \<and> isPaged (body r) then st\<lparr>books := items_of (body r)\<rparr> else st)))"

definition searchGet_fn :: "platform \<Rightarrow> console_state \<Rightarrow> action" where
  "searchGet_fn env cap st =
     (case encodeURIComponent env (searchQ cap) of
        Inl e \<Rightarrow> (Inl e, st)
      | Inr eq \<Rightarrow>
          (case apiFetch env (js ''/api/search?q='' @ eq) None of
             Inl e \<Rightarrow> (Inl e, st)
           | Inr r \<Rightarrow>
               (Inr r,
                if ok r \<and> hasItems (body r) then st\<lparr>searchItems := items_of (body r)\<rparr> else st)))"

definition searchPost_fn :: "platform \<Rightarrow> console_state \<Rightarrow> action" where
  "searchPost_fn env cap st =
     (case post_json env (js ''/api/search'')
             (JObj [(js ''q'', JStr (searchQ cap)), (js ''mode'', JStr (js ''auto''))]) of
        Inl e \<Rightarrow> (Inl e, st)
      | Inr r \<Rightarrow>
          (Inr r,
           if ok r \<and> hasItems (body r) then st\<lparr>searchItems := items_of (body r)\<rparr> else st))"

text \<open>
  The title and the function that the click handler of a button hands to \<open>run\<close>, built
  from the state \<open>cap\<close> of the render the handler belongs to; \<open>None\<close> for the two
  buttons whose handler does not call \<open>run\<close>.
\<close>

definition onClick :: "platform \<Rightarrow> console_state \<Rightarrow> button \<Rightarrow> (jsstring \<times> action) option" where
  "onClick env cap b =
     (case b of
        Health \<Rightarrow> Some (js ''Health'', returning (apiFetch env (js ''/api/health'') None))
      | OpenSwagger \<Rightarrow> None
      | ClearLog \<Rightarrow> None
      | Login \<Rightarrow>
          Some (js ''POST /api/auth/login'',
                returning (post_json env (js ''/api/auth/login'')
                  (JObj [(js ''username'', JStr (username cap)),
                         (js ''password'', JStr (password cap))])))
      | Me \<Rightarrow> Some (js ''GET /api/auth/me'', returning (apiFetch env (js ''/api/auth/me'') None))
      | Logout \<Rightarrow>
          Some (js ''POST /api/auth/logout'',
                returning (post_plain env (js ''/api/auth/logout'') None))
      | LoadBooks \<Rightarrow> Some (js ''GET /api/books'', loadBooks_fn env cap)
      | Upload \<Rightarrow>
          Some (js ''POST /api/books/upload'',
                returning (post_plain env (js ''/api/books/upload'')
                  (Some (FormDataBody
                     (map (\<lambda>f. (js ''files'', f))
                        (case files cap of None \<Rightarrow> [] | Some fs \<Rightarrow> fs))))))
      | ProcessOne \<Rightarrow>
          Some (js ''POST /api/books/'' @ Number_toString env (processId cap) @ js ''/process'',
                returning (post_plain env
                  (js ''/api/books/'' @ Number_toString env (processId cap) @ js ''/process'')
                  None))
      | ProcessSelected \<Rightarrow>
          Some (js ''POST /api/books/process-selected'',
                returning (post_json env (js ''/api/books/process-selected'')
                  (JObj [(js ''ids'', JArr (map JNum (selectedIdList (selectedIds cap))))])))
      | SearchGet \<Rightarrow> Some (js ''GET /api/search?q=...'', searchGet_fn env cap)
      | SearchPost \<Rightarrow> Some (js ''POST /api/search'', searchPost_fn env cap)
      | LoadStats \<Rightarrow>
          Some (js ''GET /api/stats/summary'',
                returning (apiFetch env (js ''/api/stats/summary'') None)))"

subsection \<open>The page as a transition system\<close>

text \<open>
  The page between two events: the state the hooks hold, the state of the last render
  (the one the buttons on the page show, and the one their handlers closed over), and
  the calls of \<open>run\<close> that wait for the network, each with the button that started it
  and the state its handler closed over. Nothing in this type bounds the number of
  waiting calls.
\<close>

record ui =
  ui_state :: console_state
  ui_rendered :: console_state
  ui_inflight :: "(button \<times> console_state) list"

text \<open>
  An event is a click, the settling of the network call of the \<open>i\<close>-th waiting action
  with what \<open>fetch\<close> gave, an edit of a form field with the field's new value, or a
  render of the page from the state.
\<close>

datatype event =
    Click button
  | Settle nat "thrown + response"
  | ChangeUsername jsstring
  | ChangePassword jsstring
  | ChangeQ jsstring
  | ChangePage jsstring
  | ChangePageSize jsstring
  | ChangeFiles "jsstring list option"
  | ChangeProcessId jsstring
  | ChangeSelectedIds jsstring
  | ChangeSearchQ jsstring
  | Render

definition with_outcome :: "platform \<Rightarrow> thrown + response \<Rightarrow> platform" where
  "with_outcome env outcome = env\<lparr>fetch := (\<lambda>path opts. outcome)\<rparr>"

text \<open>\<open>v || d\<close> on a string: the empty string is the only falsy one.\<close>

definition or_else :: "jsstring \<Rightarrow> jsstring \<Rightarrow> jsstring" where
  "or_else v d = (if v = [] then d else v)"

text \<open>
  A click reaches the handler unless the button is disabled on the page, that is, in
  the last render; \<open>run\<close> itself tests nothing. The handler is the one of the last
  render, and what it sets, it sets in the state the hooks hold.
\<close>

fun step :: "platform \<Rightarrow> ui \<Rightarrow> event \<Rightarrow> ui" where
  "step env u (Click b) =
     (if disabled (ui_rendered u) b then u
      else (case onClick env (ui_rendered u) b of
              Some call \<Rightarrow>
                u\<lparr> ui_state := run_begin (ui_state u),
                  ui_inflight := ui_inflight u @ [(b, ui_rendered u)] \<rparr>
            | None \<Rightarrow>
                (if b = ClearLog then u\<lparr>ui_state := (ui_state u)\<lparr>log_st := []\<rparr>\<rparr> else u)))"
| "step env u (Settle i outcome) =
     (if i < length (ui_inflight u) then
        (case ui_inflight u ! i of
           (b, cap) \<Rightarrow>
             (case onClick (with_outcome env outcome) cap b of
                None \<Rightarrow> u
              | Some (title, fn) \<Rightarrow>
                  (case fn (ui_state u) of
                     (r, st') \<Rightarrow>
                       u\<lparr> ui_state := snd (run_end env title r st'),
                         ui_inflight := take i (ui_inflight u) @ drop (Suc i) (ui_inflight u) \<rparr>)))
      else u)"
| "step env u (ChangeUsername v) = u\<lparr>ui_state := (ui_state u)\<lparr>username := v\<rparr>\<rparr>"
| "step env u (ChangePassword v) = u\<lparr>ui_state := (ui_state u)\<lparr>password := v\<rparr>\<rparr>"
| "step env u (ChangeQ v) = u\<lparr>ui_state := (ui_state u)\<lparr>q_st := v\<rparr>\<rparr>"
| "step env u (ChangePage v) =
     u\<lparr>ui_state := (ui_state u)\<lparr>page := parseInt (or_else v (js ''1''))\<rparr>\<rparr>"
| "step env u (ChangePageSize v) =
     u\<lparr>ui_state := (ui_state u)\<lparr>pageSize := parseInt (or_else v (js ''20''))\<rparr>\<rparr>"
| "step env u (ChangeFiles fs) = u\<lparr>ui_state := (ui_state u)\<lparr>files := fs\<rparr>\<rparr>"
| "step env u (ChangeProcessId v) =
     u\<lparr>ui_state := (ui_state u)\<lparr>processId := parseInt (or_else v (js ''0''))\<rparr>\<rparr>"
| "step env u (ChangeSelectedIds v) = u\<lparr>ui_state := (ui_state u)\<lparr>selectedIds := v\<rparr>\<rparr>"
| "step env u (ChangeSearchQ v) = u\<lparr>ui_state := (ui_state u)\<lparr>searchQ := v\<rparr>\<rparr>"
| "step env u Render = u\<lparr>ui_rendered := ui_state u\<rparr>"

definition initial_ui :: ui where
  "initial_ui = \<lparr> ui_state = initial_state, ui_rendered = initial_state, ui_inflight = [] \<rparr>"

definition after_events :: "platform \<Rightarrow> event list \<Rightarrow> ui" where
  "after_events env evs = foldl (step env) initial_ui evs"

text \<open>A sequence of events with a render of the page after each of them.\<close>

fun rendered :: "event list \<Rightarrow> event list" where
  "rendered [] = []"
| "rendered (ev # evs) = ev # Render # rendered evs"

fun is_settle :: "event \<Rightarrow> bool" where
  "is_settle (Settle i outcome) = True"
| "is_settle (Click b) = False"
| "is_settle (ChangeUsername v) = False"
| "is_settle (ChangePassword v) = False"
| "is_settle (ChangeQ v) = False"
| "is_settle (ChangePage v) = False"
| "is_settle (ChangePageSize v) = False"
| "is_settle (ChangeFiles fs) = False"
| "is_settle (ChangeProcessId v) = False"
| "is_settle (ChangeSelectedIds v) = False"
| "is_settle (ChangeSearchQ v) = False"
| "is_settle Render = False"

subsection \<open>A small platform for examples\<close>

text \<open>
  A platform whose network gives one fixed outcome and whose JSON codec knows the
  empty array and the empty object, and a response with a given status, content type
  and body text.
\<close>

definition example_platform :: "thrown + response \<Rightarrow> platform" where
  "example_platform outcome =
     \<lparr> fetch = (\<lambda>path opts. outcome),
       JSON_parse = (\<lambda>t. if t = js ''[]'' then Inr (JArr [])
                         else if t = js ''{}'' then Inr (JObj [])
                         else Inl (ErrorInstance (js ''Unexpected token''))),
       JSON_stringify = (\<lambda>v indent. if v = JArr [] then Inr (Some (js ''[]''))
                                     else if v = JObj [] then Inr (Some (js ''{}''))
                                     else Inr (Some (js ''...''))),
       String_of = (\<lambda>v. js ''[object Object]''),
       encodeURIComponent = (\<lambda>t. Inr t),
       Number_toString = (\<lambda>n. if n = Finite 200 then js ''200''
                                else if n = Finite 500 then js ''500'' else js ''1'') \<rparr>"

definition example_response :: "nat \<Rightarrow> jsstring \<Rightarrow> jsstring \<Rightarrow> response" where
  "example_response code ct text =
     \<lparr> res_status = code,
       res_headers_get = (\<lambda>name. if name = js ''content-type'' then Some ct else None),
       res_text = Inr text \<rparr>"

definition network_down :: platform where
  "network_down = example_platform (Inl (ErrorInstance (js ''Failed to fetch'')))"


definition searching :: "event list" where
  "searching = [ChangeSearchQ (js ''cat''), Click SearchGet]"

definition double_click :: "event list" where
  "double_click = [Click Health, Click Health]"

subsection \<open>The invariants of the busy gate\<close>

text \<open>A waiting call was started by a button whose handler calls \<open>run\<close>.\<close>

definition calls_are_actions :: "ui \<Rightarrow> bool" where
  "calls_are_actions u =
     (\<forall>bc \<in> set (ui_inflight u). fst bc \<noteq> OpenSwagger \<and> fst bc \<noteq> ClearLog)"

text \<open>
  The page shows its state, it is busy exactly when a call waits, and at most one call
  waits.
\<close>

definition gate_invariant :: "ui \<Rightarrow> bool" where
  "gate_invariant u =
     (ui_rendered u = ui_state u \<and> (busy (ui_state u) \<longleftrightarrow> ui_inflight u \<noteq> [])
      \<and> length (ui_inflight u) \<le> 1 \<and> calls_are_actions u)"

section \<open>Shape guards: properties\<close>

lemma typeof_number_iff: "typeof v = ''number'' \<longleftrightarrow> (\<exists>n. v = JNum n)"
  by (cases v) simp_all

lemma Array_isArray_iff: "Array_isArray v \<longleftrightarrow> (\<exists>xs. v = JArr xs)"
  by (cases v) simp_all

lemma isRecord_iff: "isRecord x \<longleftrightarrow> (\<exists>xs. x = JArr xs) \<or> (\<exists>kvs. x = JObj kvs)"
  by (cases x) (simp_all add: isRecord_def)

lemma get_prop_JNum_iff:
  "get_prop x k = JNum n \<longleftrightarrow> (\<exists>kvs. x = JObj kvs \<and> map_of kvs k = Some (JNum n))"
  by (cases x) (auto split: option.splits)

lemma get_prop_JArr_iff:
  "get_prop x k = JArr xs \<longleftrightarrow> (\<exists>kvs. x = JObj kvs \<and> map_of kvs k = Some (JArr xs))"
  by (cases x) (auto split: option.splits)

lemma isPaged_iff_fields:
  "isPaged x \<longleftrightarrow>
     (\<exists>kvs t p s xs. x = JObj kvs \<and>
        map_of kvs (js ''total'') = Some (JNum t) \<and>
        map_of kvs (js ''page'') = Some (JNum p) \<and>
        map_of kvs (js ''pageSize'') = Some (JNum s) \<and>
        map_of kvs (js ''items'') = Some (JArr xs))"
proof (cases x)
  case (JObj kvs)
  then show ?thesis
    by (auto simp: isPaged_def isRecord_def typeof_number_iff Array_isArray_iff
             split: option.splits)
qed (simp_all add: isPaged_def isRecord_def)

lemma hasItems_iff_field:
  "hasItems x \<longleftrightarrow> (\<exists>kvs xs. x = JObj kvs \<and> map_of kvs (js ''items'') = Some (JArr xs))"
proof (cases x)
  case (JObj kvs)
  then show ?thesis
    by (auto simp: hasItems_def isRecord_def Array_isArray_iff split: option.splits)
qed (simp_all add: hasItems_def isRecord_def)

lemma isPaged_paged_example: "isPaged paged_example"
  by (simp add: isPaged_def isRecord_def paged_example_def js_def)

lemma not_isPaged_items_only: "\<not> isPaged items_only_example"
  by (simp add: isPaged_def isRecord_def items_only_example_def js_def)

lemma hasItems_items_12: "hasItems items_12_example"
  by (simp add: hasItems_def isRecord_def items_12_example_def js_def)

lemma not_hasItems_total_only: "\<not> hasItems total_only_example"
  by (simp add: hasItems_def isRecord_def total_only_example_def js_def)


text \<open>
  C3: \<open>isPaged x\<close> holds exactly when \<open>x\<close> is an object whose \<open>total\<close>, \<open>page\<close> and
  \<open>pageSize\<close> fields are numbers and whose \<open>items\<close> field is an array (an array is
  object-like too, but has no such fields); it holds of
  \<open>{total:1,page:1,pageSize:20,items:[]}\<close> and fails on \<open>{items:[]}\<close>.
\<close>

theorem isPaged_shape:
  "(isPaged x \<longleftrightarrow>
      (\<exists>kvs t p s xs. x = JObj kvs \<and>
         map_of kvs (js ''total'') = Some (JNum t) \<and>
         map_of kvs (js ''page'') = Some (JNum p) \<and>
         map_of kvs (js ''pageSize'') = Some (JNum s) \<and>
         map_of kvs (js ''items'') = Some (JArr xs)))
   \<and> isPaged paged_example \<and> \<not> isPaged items_only_example"
  using isPaged_iff_fields [of x] isPaged_paged_example not_isPaged_items_only by blast

theorem isPaged_shape_witness:
  "isPaged (JObj [(js ''items'', JArr [JNull]), (js ''total'', JNum (Finite 7)),
                  (js ''page'', JNum (Finite 2)), (js ''pageSize'', JNum (Finite 5)),
                  (js ''extra'', JBool True)])
   \<and> \<not> isPaged (JObj [(js ''items'', JArr []), (js ''total'', JStr (js ''7'')),
                  (js ''page'', JNum (Finite 2)), (js ''pageSize'', JNum (Finite 5))])
   \<and> \<not> isPaged (JArr [])"
  using isPaged_shape [of "JObj [(js ''items'', JArr [JNull]), (js ''total'', JNum (Finite 7)),
                  (js ''page'', JNum (Finite 2)), (js ''pageSize'', JNum (Finite 5)),
                  (js ''extra'', JBool True)]"]
        isPaged_shape [of "JObj [(js ''items'', JArr []), (js ''total'', JStr (js ''7'')),
                  (js ''page'', JNum (Finite 2)), (js ''pageSize'', JNum (Finite 5))]"]
        isPaged_shape [of "JArr []"]
  by (simp add: js_def)

text \<open>
  C4: \<open>hasItems x\<close> holds exactly when \<open>x\<close> is an object whose \<open>items\<close> field is an
  array, whatever its other fields; it holds of \<open>{items:[1,2]}\<close> and fails on
  \<open>{total:1}\<close>.
\<close>

theorem hasItems_shape:
  "(hasItems x \<longleftrightarrow>
      (\<exists>kvs xs. x = JObj kvs \<and> map_of kvs (js ''items'') = Some (JArr xs)))
   \<and> hasItems items_12_example \<and> \<not> hasItems total_only_example"
  using hasItems_iff_field [of x] hasItems_items_12 not_hasItems_total_only by blast

theorem hasItems_shape_witness:
  "hasItems (JObj [(js ''took'', JNum (Finite 3)), (js ''items'', JArr [JStr (js ''a'')])])
   \<and> \<not> hasItems (JObj [(js ''items'', JObj [])])
   \<and> \<not> hasItems (JStr (js ''items''))"
  using hasItems_shape [of "JObj [(js ''took'', JNum (Finite 3)),
                                  (js ''items'', JArr [JStr (js ''a'')])]"]
        hasItems_shape [of "JObj [(js ''items'', JObj [])]"]
        hasItems_shape [of "JStr (js ''items'')"]
  by (simp add: js_def)

section \<open>The request dispatcher: properties\<close>

lemma starts_with_prefix: "starts_with s t \<longleftrightarrow> prefix t s"
  by (induction s t rule: starts_with.induct) auto

lemma String_includes_sublist: "String_includes s t \<longleftrightarrow> sublist t s"
  by (induction s) (auto simp: starts_with_prefix sublist_Cons_right)

text \<open>What \<open>apiFetch\<close> makes of a response, branch by branch.\<close>

lemma apiFetch_response:
  assumes "fetch env path (request_options init) = Inr res"
  shows "apiFetch env path init =
           (case res_text res of
              Inl e \<Rightarrow> Inl e
            | Inr t \<Rightarrow>
                if sublist (js ''application/json'') (content_type_of res)
                then (case JSON_parse env t of
                        Inl e \<Rightarrow> Inl e
                      | Inr v \<Rightarrow> Inr \<lparr> ok = res_ok res, status = res_status res, body = v \<rparr>)
                else Inr \<lparr> ok = res_ok res, status = res_status res, body = JStr t \<rparr>)"
  using assms
  by (simp add: apiFetch_def res_json_def String_includes_sublist Let_def split: sum.splits)


lemma json_content_type_examples:
  "sublist (js ''application/json'') (js ''application/json; charset=utf-8'')"
  "\<not> sublist (js ''application/json'') (js ''text/plain'')"
  by (simp_all add: js_def flip: String_includes_sublist)

lemma example_fetch: "fetch (example_platform outcome) path opts = outcome"
  by (simp add: example_platform_def)

lemma example_content_type: "content_type_of (example_response code ct text) = ct"
  by (simp add: content_type_of_def example_response_def)

lemma example_parse:
  "JSON_parse (example_platform outcome) (js ''[]'') = Inr (JArr [])"
  "JSON_parse (example_platform outcome) (js ''{}'') = Inr (JObj [])"
  "JSON_parse (example_platform outcome) (js ''{oops'') =
     Inl (ErrorInstance (js ''Unexpected token''))"
  by (simp_all add: example_platform_def js_def)

lemma example_response_sel:
  "res_text (example_response code ct text) = Inr text"
  "res_status (example_response code ct text) = code"
  by (simp_all add: example_response_def)



text \<open>
  C1: when the content type of the response contains \<open>application/json\<close>, the body of
  the envelope is what \<open>JSON.parse\<close> makes of the response text; otherwise it is the
  response text itself, as a string. In both cases an envelope is returned once the
  text is there (and parses, in the first case), and no other envelope is ever
  returned.
\<close>

theorem apiFetch_body_decoding:
  assumes "fetch env path (request_options init) = Inr res"
  shows "(sublist (js ''application/json'') (content_type_of res) \<longrightarrow>
            (\<forall>t v. res_text res = Inr t \<longrightarrow> JSON_parse env t = Inr v \<longrightarrow>
               (\<exists>r. apiFetch env path init = Inr r \<and> body r = v)))
       \<and> (\<not> sublist (js ''application/json'') (content_type_of res) \<longrightarrow>
            (\<forall>t. res_text res = Inr t \<longrightarrow>
               (\<exists>r. apiFetch env path init = Inr r \<and> body r = JStr t)))
       \<and> (\<forall>r. apiFetch env path init = Inr r \<longrightarrow>
            (\<exists>t. res_text res = Inr t \<and>
               (if sublist (js ''application/json'') (content_type_of res)
                then JSON_parse env t = Inr (body r) else body r = JStr t)))"
  by (auto simp: apiFetch_response [OF assms] split: sum.splits)

theorem apiFetch_body_decoding_witness:
  "(\<exists>r. apiFetch (example_platform (Inr (example_response 200
            (js ''application/json; charset=utf-8'') (js ''[]''))))
          (js ''/api/books'') None = Inr r \<and> body r = JArr [])
   \<and> (\<exists>r. apiFetch (example_platform (Inr (example_response 200
            (js ''text/plain'') (js ''[]''))))
          (js ''/api/health'') None = Inr r \<and> body r = JStr (js ''[]''))"
  using apiFetch_body_decoding
          [of "example_platform (Inr (example_response 200
                  (js ''application/json; charset=utf-8'') (js ''[]'')))"
              "js ''/api/books''" None
              "example_response 200 (js ''application/json; charset=utf-8'') (js ''[]'')"]
        apiFetch_body_decoding
          [of "example_platform (Inr (example_response 200 (js ''text/plain'') (js ''[]'')))"
              "js ''/api/health''" None
              "example_response 200 (js ''text/plain'') (js ''[]'')"]
  by (simp add: example_fetch example_content_type example_parse example_response_sel
        json_content_type_examples)

text \<open>
  C2: the \<open>ok\<close> field of the envelope is true exactly when the status code of the
  response lies in 200..299, and the status alone decides it: two responses of equal
  status give the same \<open>ok\<close>, whatever their content types and bodies.
\<close>

theorem apiFetch_ok_iff_status:
  assumes "fetch env path (request_options init) = Inr res"
    and "apiFetch env path init = Inr r"
  shows "(ok r \<longleftrightarrow> 200 \<le> res_status res \<and> res_status res \<le> 299)
       \<and> status r = res_status res
       \<and> (\<forall>env' path' init' res' r'.
            fetch env' path' (request_options init') = Inr res' \<longrightarrow>
            apiFetch env' path' init' = Inr r' \<longrightarrow>
            res_status res' = res_status res \<longrightarrow> ok r' = ok r)"
  using assms
  by (auto simp: apiFetch_response res_ok_def split: sum.splits if_splits)

theorem apiFetch_ok_iff_status_witness:
  "(\<exists>r. apiFetch (example_platform (Inr (example_response 204
            (js ''application/json; charset=utf-8'') (js ''{}''))))
          (js ''/api/auth/me'') None = Inr r \<and> ok r \<and> status r = 204)
   \<and> (\<exists>r. apiFetch (example_platform (Inr (example_response 500
            (js ''application/json; charset=utf-8'') (js ''{}''))))
          (js ''/api/auth/me'') None = Inr r \<and> \<not> ok r \<and> status r = 500)"
proof -
  let ?ct = "js ''application/json; charset=utf-8''"
  let ?E = "\<lambda>code. example_platform (Inr (example_response code ?ct (js ''{}'')))"
  have f: "fetch (?E code) (js ''/api/auth/me'') (request_options None)
             = Inr (example_response code ?ct (js ''{}''))" for code
    by (simp add: example_fetch)
  have a: "apiFetch (?E code) (js ''/api/auth/me'') None
             = Inr \<lparr> ok = res_ok (example_response code ?ct (js ''{}'')), status = code,
                     body = JObj [] \<rparr>" for code
    by (simp add: apiFetch_response [OF f] example_content_type example_parse
          example_response_sel json_content_type_examples)
  from apiFetch_ok_iff_status [OF f a, of 204] apiFetch_ok_iff_status [OF f a, of 500]
  show ?thesis
    by (simp add: a example_response_sel)
qed

text \<open>
  C7: when the response declares a JSON content type and its text does not parse,
  \<open>apiFetch\<close> returns no envelope: the error of \<open>JSON.parse\<close> leaves it as a throw.
\<close>

theorem apiFetch_malformed_json_throws:
  assumes "fetch env path (request_options init) = Inr res"
    and "sublist (js ''application/json'') (content_type_of res)"
    and "res_text res = Inr t"
    and "JSON_parse env t = Inl e"
  shows "apiFetch env path init = Inl e"
  using assms by (simp add: apiFetch_response)

theorem apiFetch_malformed_json_throws_witness:
  "apiFetch (example_platform (Inr (example_response 200
            (js ''application/json; charset=utf-8'') (js ''{oops''))))
          (js ''/api/books'') None = Inl (ErrorInstance (js ''Unexpected token''))"
  by (rule apiFetch_malformed_json_throws
             [where res = "example_response 200 (js ''application/json; charset=utf-8'')
                             (js ''{oops'')"
                and t = "js ''{oops''"])
     (simp_all add: example_fetch example_content_type example_parse example_response_sel
        json_content_type_examples)

section \<open>The selected-ids parser: properties\<close>

lemma split_scan_join:
  "concat (map (\<lambda>p. p @ [sep]) (split_scan sep cur s)) = rev cur @ s @ [sep]"
  by (induction s arbitrary: cur) auto

lemma split_scan_no_sep:
  "sep \<notin> set cur \<Longrightarrow> p \<in> set (split_scan sep cur s) \<Longrightarrow> sep \<notin> set p"
proof (induction s arbitrary: cur)
  case Nil
  then show ?case by simp
next
  case (Cons c s)
  show ?case
  proof (cases "c = sep")
    case True
    with Cons.prems have "p = rev cur \<or> p \<in> set (split_scan sep [] s)" by simp
    then show ?thesis
    proof
      assume "p = rev cur" with Cons.prems(1) show ?thesis by simp
    next
      assume "p \<in> set (split_scan sep [] s)"
      then show ?thesis using Cons.IH [of "[]"] by simp
    qed
  next
    case False
    with Cons.prems have "p \<in> set (split_scan sep (c # cur) s)" by simp
    moreover from False Cons.prems(1) have "sep \<notin> set (c # cur)" by auto
    ultimately show ?thesis using Cons.IH [of "c # cur"] by blast
  qed
qed

lemma split_scan_length: "length (split_scan sep cur s) = Suc (count_list s sep)"
  by (induction s arbitrary: cur) auto

lemma String_split_join:
  "concat (map (\<lambda>p. p @ [sep]) (String_split s sep)) = s @ [sep]"
  by (simp add: String_split_def split_scan_join)

lemma String_split_no_sep: "p \<in> set (String_split s sep) \<Longrightarrow> sep \<notin> set p"
  unfolding String_split_def by (rule split_scan_no_sep [of sep "[]"]) simp_all

lemma String_split_length: "length (String_split s sep) = Suc (count_list s sep)"
  by (simp add: String_split_def split_scan_length)

lemma parseInt_cases:
  "parseInt s = NaN \<or> parseInt s = NegZero \<or> parseInt s = Finite 0
     \<or> (\<exists>b m. parseInt s = Number_of_int b m)"
  by (auto simp: parseInt_def Let_def)

lemma kept_is_positive_integer:
  assumes "Number_isFinite (parseInt s)" and "gt_zero (parseInt s)"
  shows "\<exists>k. 0 < k \<and> parseInt s = Finite (of_int k)"
proof -
  from parseInt_cases [of s] assms obtain b m where p: "parseInt s = Number_of_int b m"
    by auto
  with assms show ?thesis
    by (auto simp: Number_of_int_def Let_def split: if_splits intro: exI [of _ "round_to_double m"]
        exI [of _ "- round_to_double m"])
qed

lemmas parser_eval = selectedIdList_def js_def String_split_def comma_def trim_def
  trim_start_def is_whitespace_def parseInt_def is_digit_def digits_value_def digit_value_def
  Number_of_int_def round_to_double_def

lemma selectedIdList_spec_example:
  "selectedIdList (js ''1, 2, x, -3, 4'') = [Finite 1, Finite 2, Finite 4]"
  by (simp add: parser_eval)

text \<open>
  C5: the input is cut at its commas (the pieces, each followed by a comma, rebuild
  the input followed by a comma, and no piece holds a comma); each piece is trimmed
  and read by \<open>parseInt\<close> in base 10; exactly the finite, strictly positive results
  are kept, in order, and each is a positive integer. The input \<open>"1, 2, x, -3, 4"\<close>
  gives \<open>[1, 2, 4]\<close>.
\<close>

theorem selectedIdList_parses:
  "concat (map (\<lambda>p. p @ [comma]) (String_split s comma)) = s @ [comma]
   \<and> length (String_split s comma) = Suc (count_list s comma)
   \<and> (\<forall>p \<in> set (String_split s comma). comma \<notin> set p)
   \<and> selectedIdList s =
       filter (\<lambda>n. Number_isFinite n \<and> gt_zero n)
         (map (\<lambda>e. parseInt (trim e)) (String_split s comma))
   \<and> (\<forall>n \<in> set (selectedIdList s). \<exists>k. 0 < k \<and> n = Finite (of_int k))
   \<and> selectedIdList (js ''1, 2, x, -3, 4'') = [Finite 1, Finite 2, Finite 4]"
proof -
  have "\<exists>k. 0 < k \<and> n = Finite (of_int k)" if "n \<in> set (selectedIdList s)" for n
  proof -
    from that obtain e where "n = parseInt (trim e)" "Number_isFinite n" "gt_zero n"
      by (auto simp: selectedIdList_def)
    then show ?thesis using kept_is_positive_integer [of "trim e"] by simp
  qed
  then show ?thesis
    using String_split_no_sep [of _ s comma]
    by (simp add: String_split_join String_split_length selectedIdList_spec_example)
       (simp add: selectedIdList_def)
qed

theorem selectedIdList_parses_witness:
  "String_split (js ''7, x,,08'') comma = [js ''7'', js '' x'', [], js ''08'']
   \<and> selectedIdList (js ''7, x,,08'') = [Finite 7, Finite 8]"
  using selectedIdList_parses [of "js ''7, x,,08''"]
  by (simp add: parser_eval)


lemma digit_not_whitespace: "is_digit c \<Longrightarrow> \<not> is_whitespace c"
  by (auto simp: is_digit_def is_whitespace_def word_le_def)

lemma sign_units:
  "\<not> is_whitespace 43" "\<not> is_whitespace 45" "\<not> is_digit 43" "\<not> is_digit 45"
  by (simp_all add: is_whitespace_def is_digit_def)

lemma takeWhile_run:
  assumes "\<forall>c \<in> set ds. P c" and "\<forall>c r. rest = c # r \<longrightarrow> \<not> P c"
  shows "takeWhile P (ds @ rest) = ds"
  using assms by (cases rest) (simp_all add: takeWhile_append2)

lemma Number_of_int_safe:
  "0 < m \<Longrightarrow> m < 2 ^ 53 \<Longrightarrow> Number_of_int False m = Finite (of_int m)"
  by (simp add: Number_of_int_def round_to_double_def)

text \<open>
  \<open>parseInt\<close> on a text that starts with an optional sign and a maximal run of digits.
\<close>

lemma parseInt_prefix:
  assumes s: "s = sg @ ds @ rest"
    and sg: "sg = [] \<or> sg = js ''+'' \<or> sg = js ''-''"
    and ds: "ds \<noteq> []" "\<forall>c \<in> set ds. is_digit c"
    and rest: "\<forall>c r. rest = c # r \<longrightarrow> \<not> is_digit c"
  shows "parseInt s =
           (if digits_value ds = 0 then (if sg = js ''-'' then NegZero else Finite 0)
            else Number_of_int (sg = js ''-'') (digits_value ds))"
proof -
  obtain d ds' where d: "ds = d # ds'" using ds(1) by (cases ds) auto
  with ds(2) have dd: "is_digit d" by simp
  have tw: "takeWhile is_digit (ds @ rest) = ds"
    using ds(2) rest by (rule takeWhile_run)
  from sg show ?thesis
  proof (elim disjE)
    assume "sg = []"
    with s d dd tw ds(1) show ?thesis
      using digit_not_whitespace [OF dd] sign_units
      by (auto simp: parseInt_def trim_start_def js_def Let_def is_digit_def)
  next
    assume "sg = js ''+''"
    with s d dd tw ds(1) show ?thesis
      using sign_units
      by (auto simp: parseInt_def trim_start_def js_def Let_def)
  next
    assume "sg = js ''-''"
    with s d dd tw ds(1) show ?thesis
      using sign_units
      by (auto simp: parseInt_def trim_start_def js_def Let_def)
  qed
qed

text \<open>
  C10, as it is written, fails: an entry can begin with an integer prefix and still be
  dropped. \<open>"-3abc"\<close> parses to \<open>-3\<close> and \<open>"0abc"\<close> to \<open>0\<close>, and neither passes the
  filter. And a kept entry need not contribute its prefix: no Number has the value
  \<open>2^53 + 1\<close>, and the entry \<open>"9007199254740993x"\<close> contributes \<open>2^53\<close>.
\<close>

theorem selectedIdList_drops_nonpositive_prefix:
  "parseInt (trim (js ''-3abc'')) = Finite (- 3) \<and> selectedIdList (js ''-3abc'') = []
   \<and> parseInt (trim (js ''0abc'')) = Finite 0 \<and> selectedIdList (js ''0abc'') = []
   \<and> selectedIdList (js ''9007199254740993x'') = [Finite 9007199254740992]"
  by (simp add: parser_eval compute_bitlen)

text \<open>
  C10, amended: an entry whose trimmed text begins with an optional \<open>+\<close> and a run of
  decimal digits of a value strictly between 0 and \<open>2^53\<close> is kept, and it contributes
  that integer, whatever follows the digits: \<open>"3abc"\<close> contributes 3 and \<open>"2.5"\<close>
  contributes 2.
\<close>

theorem selectedIdList_keeps_positive_prefix:
  assumes "e \<in> set (String_split s comma)"
    and "trim e = sg @ ds @ rest"
    and "sg = [] \<or> sg = js ''+''"
    and "ds \<noteq> []" and "\<forall>c \<in> set ds. is_digit c"
    and "\<forall>c r. rest = c # r \<longrightarrow> \<not> is_digit c"
    and "0 < digits_value ds" and "digits_value ds < 2 ^ 53"
  shows "parseInt (trim e) = Finite (of_int (digits_value ds))
       \<and> Finite (of_int (digits_value ds)) \<in> set (selectedIdList s)
       \<and> selectedIdList (js ''3abc'') = [Finite 3]
       \<and> selectedIdList (js ''2.5'') = [Finite 2]"
proof -
  have sg: "sg = [] \<or> sg = js ''+'' \<or> sg = js ''-''" and nm: "sg \<noteq> js ''-''"
    using assms(3) by (auto simp: js_def)
  have p: "parseInt (trim e) = Finite (of_int (digits_value ds))"
    using parseInt_prefix [OF assms(2) sg assms(4,5,6)] assms(7,8) nm
    by (simp add: Number_of_int_safe)
  have "Number_isFinite (parseInt (trim e)) \<and> gt_zero (parseInt (trim e))"
    using p assms(7) by simp
  with assms(1) have "parseInt (trim e) \<in> set (selectedIdList s)"
    by (auto simp: selectedIdList_def)
  with p show ?thesis
    by (simp add: parser_eval)
qed

theorem selectedIdList_keeps_positive_prefix_witness:
  "js '' +12px '' \<in> set (String_split (js ''x, +12px ,-4'') comma)
   \<and> trim (js '' +12px '') = js ''+'' @ js ''12'' @ js ''px''
   \<and> digits_value (js ''12'') = 12
   \<and> Finite 12 \<in> set (selectedIdList (js ''x, +12px ,-4''))"
proof -
  have 1: "js '' +12px '' \<in> set (String_split (js ''x, +12px ,-4'') comma)"
    by (simp add: js_def String_split_def comma_def)
  have 2: "trim (js '' +12px '') = js ''+'' @ js ''12'' @ js ''px''"
    by (simp add: js_def trim_def trim_start_def is_whitespace_def)
  have 3: "js ''+'' = [] \<or> js ''+'' = js ''+''" by simp
  have 4: "js ''12'' \<noteq> []" by (simp add: js_def)
  have 5: "\<forall>c \<in> set (js ''12''). is_digit c" by (simp add: js_def is_digit_def)
  have 6: "\<forall>c r. js ''px'' = c # r \<longrightarrow> \<not> is_digit c" by (simp add: js_def is_digit_def)
  have 7: "digits_value (js ''12'') = 12" by (simp add: js_def digits_value_def digit_value_def)
  have 8: "0 < digits_value (js ''12'')" "digits_value (js ''12'') < 2 ^ 53"
    by (simp_all add: 7)
  from selectedIdList_keeps_positive_prefix [OF 1 2 3 4 5 6 8] 1 2 7
  show ?thesis by simp
qed


section \<open>The console: properties\<close>



lemma run_end_not_busy: "\<not> busy (snd (run_end env title outcome st))"
  by (simp add: run_end_def appendLog_def split: sum.splits)


















lemma onClick_None_iff: "onClick env cap b = None \<longleftrightarrow> b = OpenSwagger \<or> b = ClearLog"
  by (cases b) (simp_all add: onClick_def)

lemma busy_disabled: "busy st \<Longrightarrow> disabled st b"
  by (cases b) (simp_all add: disabled_def)

lemma not_disabled_not_busy: "\<not> disabled st b \<Longrightarrow> \<not> busy st"
  using busy_disabled by blast

lemma step_click_starts:
  assumes "\<not> disabled (ui_rendered u) b" and "onClick env (ui_rendered u) b \<noteq> None"
  shows "step env u (Click b) =
           u\<lparr> ui_state := run_begin (ui_state u),
             ui_inflight := ui_inflight u @ [(b, ui_rendered u)] \<rparr>"
  using assms by (auto split: option.splits)

text \<open>The settling of a waiting call resets the busy flag and takes the call away.\<close>

lemma step_settle:
  assumes "calls_are_actions u" and "i < length (ui_inflight u)"
  shows "\<not> busy (ui_state (step env u (Settle i outcome)))
       \<and> ui_inflight (step env u (Settle i outcome)) =
           take i (ui_inflight u) @ drop (Suc i) (ui_inflight u)
       \<and> ui_rendered (step env u (Settle i outcome)) = ui_rendered u"
proof -
  obtain b cap where bc: "ui_inflight u ! i = (b, cap)" by (cases "ui_inflight u ! i") auto
  with assms have "(b, cap) \<in> set (ui_inflight u)" by (metis nth_mem)
  with assms(1) have "b \<noteq> OpenSwagger" "b \<noteq> ClearLog"
    by (auto simp: calls_are_actions_def)
  then obtain title fn where c: "onClick (with_outcome env outcome) cap b = Some (title, fn)"
    using onClick_None_iff [of "with_outcome env outcome" cap b] by fastforce
  obtain r st' where f: "fn (ui_state u) = (r, st')" by (cases "fn (ui_state u)") auto
  show ?thesis
    using assms(2) bc c f run_end_not_busy [of env title r st'] by simp
qed

lemma step_keeps_busy:
  "\<not> is_settle ev \<Longrightarrow> busy (ui_state u) \<Longrightarrow> busy (ui_state (step env u ev))"
  by (cases ev) (auto simp: run_begin_def split: option.splits)

lemma step_calls_are_actions:
  assumes "calls_are_actions u"
  shows "calls_are_actions (step env u ev)"
proof (cases ev)
  case (Click b)
  show ?thesis
  proof (cases "onClick env (ui_rendered u) b")
    case None
    with Click assms show ?thesis by (simp add: calls_are_actions_def)
  next
    case (Some call)
    then have "b \<noteq> OpenSwagger \<and> b \<noteq> ClearLog"
      using onClick_None_iff [of env "ui_rendered u" b] by auto
    with Click Some assms show ?thesis by (auto simp: calls_are_actions_def)
  qed
next
  case (Settle i outcome)
  show ?thesis
  proof (cases "i < length (ui_inflight u)")
    case False
    with Settle assms show ?thesis by simp
  next
    case True
    from step_settle [OF assms True, of env outcome]
    have "set (ui_inflight (step env u (Settle i outcome))) \<subseteq> set (ui_inflight u)"
      by (auto dest: in_set_takeD in_set_dropD)
    with Settle assms show ?thesis by (auto simp: calls_are_actions_def)
  qed
qed (use assms in \<open>simp_all add: calls_are_actions_def\<close>)

lemma after_events_snoc:
  "after_events env (evs @ [ev]) = step env (after_events env evs) ev"
  by (simp add: after_events_def)

lemma after_events_calls_are_actions: "calls_are_actions (after_events env evs)"
proof (induction evs rule: rev_induct)
  case Nil
  show ?case by (simp add: after_events_def calls_are_actions_def initial_ui_def)
next
  case (snoc ev evs)
  then show ?case by (simp add: after_events_snoc step_calls_are_actions)
qed

text \<open>An event and the render that follows it keep the invariant of the gate.\<close>

lemma step_render_invariant:
  assumes "gate_invariant u"
  shows "gate_invariant (step env (step env u ev) Render)"
proof -
  from assms have ca: "calls_are_actions u" and rs: "ui_rendered u = ui_state u"
    by (simp_all add: gate_invariant_def)
  have ca': "calls_are_actions (step env (step env u ev) Render)"
    using ca by (intro step_calls_are_actions)
  show ?thesis
  proof (cases ev)
    case (Click b)
    show ?thesis
    proof (cases "disabled (ui_rendered u) b")
      case True
      with Click assms show ?thesis by (simp add: gate_invariant_def calls_are_actions_def)
    next
      case False
      then have "\<not> busy (ui_rendered u)" by (rule not_disabled_not_busy)
      with assms have e: "ui_inflight u = []" by (simp add: gate_invariant_def)
      show ?thesis
      proof (cases "onClick env (ui_rendered u) b")
        case None
        with Click False assms show ?thesis
          by (auto simp: gate_invariant_def calls_are_actions_def)
      next
        case (Some call)
        with Click False e ca' show ?thesis
          by (simp add: gate_invariant_def run_begin_def)
      qed
    qed
  next
    case (Settle i outcome)
    show ?thesis
    proof (cases "i < length (ui_inflight u)")
      case False
      with Settle assms show ?thesis by (simp add: gate_invariant_def calls_are_actions_def)
    next
      case True
      with assms have "ui_inflight u \<noteq> []" "length (ui_inflight u) \<le> 1"
        by (auto simp: gate_invariant_def)
      with True have "take i (ui_inflight u) @ drop (Suc i) (ui_inflight u) = []"
        by (cases "ui_inflight u") auto
      with step_settle [OF ca True, of env outcome] Settle ca' show ?thesis
        by (simp add: gate_invariant_def)
    qed
  qed (use assms ca' in \<open>simp_all add: gate_invariant_def\<close>)
qed

lemma rendered_snoc: "rendered (evs @ [ev]) = rendered evs @ [ev, Render]"
  by (induction evs) simp_all

lemma after_rendered_invariant: "gate_invariant (after_events env (rendered evs))"
proof (induction evs rule: rev_induct)
  case Nil
  show ?case
    by (simp add: after_events_def gate_invariant_def calls_are_actions_def initial_ui_def
          initial_state_def)
next
  case (snoc ev evs)
  have "after_events env (rendered (evs @ [ev])) =
          step env (step env (after_events env (rendered evs)) ev) Render"
    by (simp add: rendered_snoc after_events_def)
  then show ?case
    using step_render_invariant [OF snoc.IH, of env ev] by (simp only:)
qed

text \<open>
  A click on a page that shows its state and has no call waiting, followed by the
  settling of the call, is \<open>run\<close>, on the platform whose network gives that outcome.
\<close>

lemma click_then_settle_is_run:
  assumes "ui_inflight u = []" and "ui_rendered u = ui_state u"
    and "\<not> disabled (ui_rendered u) b"
    and "onClick env (ui_state u) b = Some (title, fn)"
    and "onClick (with_outcome env outcome) (ui_state u) b = Some (title', fn')"
  shows "ui_state (step env (step env u (Click b)) (Settle 0 outcome)) =
           snd (run env title' fn' (ui_state u))"
  using assms by (simp add: run_def split: prod.splits)

lemma double_click_eval:
  "ui_inflight (after_events network_down double_click) =
     [(Health, initial_state), (Health, initial_state)]"
  "busy (ui_state (after_events network_down double_click))"
  by (simp_all add: after_events_def double_click_def initial_ui_def disabled_def
        initial_state_def onClick_def run_begin_def)

text \<open>
  C9, as it is written, fails: \<open>run\<close> tests nothing, and a button is disabled only once
  the page has rendered the busy flag. Two clicks on the Health button with no render
  between them start two calls; and when the first of the two settles, the busy flag is
  reset while the second still waits.
\<close>

theorem second_click_before_render_starts_second_call:
  "length (ui_inflight (after_events network_down double_click)) = 2
   \<and> \<not> busy (ui_state (step network_down (after_events network_down double_click)
         (Settle 0 (Inl (ErrorInstance (js ''Failed to fetch''))))))
   \<and> length (ui_inflight (step network_down (after_events network_down double_click)
         (Settle 0 (Inl (ErrorInstance (js ''Failed to fetch'')))))) = 1"
proof -
  have ca: "calls_are_actions (after_events network_down double_click)"
    by (rule after_events_calls_are_actions)
  have l: "0 < length (ui_inflight (after_events network_down double_click))"
    by (simp add: double_click_eval)
  from step_settle [OF ca l, of network_down "Inl (ErrorInstance (js ''Failed to fetch''))"]
  show ?thesis by (simp add: double_click_eval)
qed

lemma searching_busy: "busy (ui_state (after_events network_down (rendered searching)))"
  by (simp add: after_events_def searching_def initial_ui_def initial_state_def disabled_def
        onClick_def trim_def trim_start_def is_whitespace_def js_def run_begin_def)

lemma idle_health_enabled:
  "\<not> disabled (ui_rendered (after_events network_down [])) Health"
  "onClick network_down (ui_rendered (after_events network_down [])) Health \<noteq> None"
  by (simp_all add: after_events_def initial_ui_def initial_state_def disabled_def onClick_def)

text \<open>
  C9, amended. After any sequence of clicks, edits, settlings and renders from the
  initial page \<open>u\<close>: a click on a button of an action that the page shows enabled sets
  the busy flag and starts its call; while the page shows the busy flag every button is
  disabled and a click changes nothing; and the settling of a waiting call resets the
  flag whatever the outcome, a response or a rejection. When moreover the page is
  rendered after every event \<open>v\<close>, the busy flag is set exactly when a call waits, at
  most one call waits, so no second action starts before the waiting one settles, and
  no event but the settling resets the flag.
\<close>

theorem busy_gates_actions:
  assumes "u = after_events env evs" and "v = after_events env (rendered evs)"
  shows "(\<forall>b. \<not> disabled (ui_rendered u) b \<longrightarrow> onClick env (ui_rendered u) b \<noteq> None \<longrightarrow>
            busy (ui_state (step env u (Click b)))
            \<and> ui_inflight (step env u (Click b)) = ui_inflight u @ [(b, ui_rendered u)])
       \<and> (busy (ui_rendered u) \<longrightarrow>
            (\<forall>b. disabled (ui_rendered u) b \<and> step env u (Click b) = u))
       \<and> (\<forall>i outcome. i < length (ui_inflight u) \<longrightarrow>
            \<not> busy (ui_state (step env u (Settle i outcome)))
            \<and> Suc (length (ui_inflight (step env u (Settle i outcome)))) =
                length (ui_inflight u))
       \<and> ui_rendered v = ui_state v
       \<and> (busy (ui_state v) \<longleftrightarrow> ui_inflight v \<noteq> []) \<and> length (ui_inflight v) \<le> 1
       \<and> (busy (ui_state v) \<longrightarrow>
            (\<forall>b. disabled (ui_rendered v) b \<and> step env v (Click b) = v)
            \<and> (\<forall>ev. \<not> is_settle ev \<longrightarrow> busy (ui_state (step env v ev)))
            \<and> (\<forall>outcome. \<not> busy (ui_state (step env v (Settle 0 outcome)))
                 \<and> ui_inflight (step env v (Settle 0 outcome)) = []))"
proof -
  have ca: "calls_are_actions u" using assms(1) by (simp add: after_events_calls_are_actions)
  have inv: "gate_invariant v" using assms(2) by (simp add: after_rendered_invariant)
  have 1: "busy (ui_state (step env u (Click b)))
           \<and> ui_inflight (step env u (Click b)) = ui_inflight u @ [(b, ui_rendered u)]"
    if "\<not> disabled (ui_rendered u) b" "onClick env (ui_rendered u) b \<noteq> None" for b
    using step_click_starts [OF that] by (simp add: run_begin_def)
  have 2: "disabled (ui_rendered u) b \<and> step env u (Click b) = u"
    if "busy (ui_rendered u)" for b
    using that by (simp add: busy_disabled)
  have 3: "\<not> busy (ui_state (step env u (Settle i outcome)))
           \<and> Suc (length (ui_inflight (step env u (Settle i outcome)))) = length (ui_inflight u)"
    if "i < length (ui_inflight u)" for i outcome
    using step_settle [OF ca that, of env outcome] that by simp
  have 4: "ui_rendered v = ui_state v \<and> (busy (ui_state v) \<longleftrightarrow> ui_inflight v \<noteq> [])
           \<and> length (ui_inflight v) \<le> 1"
    using inv by (simp add: gate_invariant_def)
  have 5: "disabled (ui_rendered v) b \<and> step env v (Click b) = v" if "busy (ui_state v)" for b
    using that 4 by (simp add: busy_disabled)
  have 6: "busy (ui_state (step env v ev))" if "busy (ui_state v)" "\<not> is_settle ev" for ev
    using that step_keeps_busy by blast
  have 7: "\<not> busy (ui_state (step env v (Settle 0 outcome)))
           \<and> ui_inflight (step env v (Settle 0 outcome)) = []"
    if "busy (ui_state v)" for outcome
  proof -
    from that 4 have l: "length (ui_inflight v) = 1"
      by (cases "ui_inflight v") auto
    then have z: "0 < length (ui_inflight v)" by simp
    from inv have "calls_are_actions v" by (simp add: gate_invariant_def)
    from step_settle [OF this z, of env outcome] l show ?thesis
      by (cases "ui_inflight v") auto
  qed
  show ?thesis using 1 2 3 4 5 6 7 by blast
qed

theorem busy_gates_actions_witness:
  "busy (ui_state (step network_down (after_events network_down []) (Click Health)))
   \<and> busy (ui_state (after_events network_down (rendered searching)))
   \<and> step network_down (after_events network_down (rendered searching)) (Click Health) =
       after_events network_down (rendered searching)
   \<and> busy (ui_state (step network_down (after_events network_down (rendered searching))
         (ChangeSearchQ (js ''dog''))))
   \<and> \<not> busy (ui_state (step network_down (after_events network_down (rendered searching))
         (Settle 0 (Inl (ErrorInstance (js ''Failed to fetch''))))))
   \<and> \<not> busy (ui_state (step network_down (after_events network_down (rendered searching))
         (Settle 0 (Inr (example_response 200 (js ''text/plain'') (js ''ok''))))))
   \<and> \<not> busy (ui_state (step network_down (after_events network_down double_click)
         (Settle 1 (Inr (example_response 200 (js ''text/plain'') (js ''ok''))))))"
proof -
  let ?v = "after_events network_down (rendered searching)"
  let ?w = "after_events network_down double_click"
  note idle = busy_gates_actions [OF refl refl, of network_down "[]"]
  note search = busy_gates_actions [OF refl refl, of network_down searching]
  note twice = busy_gates_actions [OF refl refl, of network_down double_click]
  have 1: "busy (ui_state (step network_down (after_events network_down []) (Click Health)))"
    using idle idle_health_enabled by blast
  have 2: "step network_down ?v (Click Health) = ?v"
    using search searching_busy by blast
  have "\<not> is_settle (ChangeSearchQ (js ''dog''))" by simp
  then have 3: "busy (ui_state (step network_down ?v (ChangeSearchQ (js ''dog''))))"
    using search searching_busy by blast
  have 4: "\<not> busy (ui_state (step network_down ?v (Settle 0 outcome)))" for outcome
    using search searching_busy by blast
  have "(1::nat) < length (ui_inflight ?w)"
    by (simp add: double_click_eval)
  then have 5: "\<not> busy (ui_state (step network_down ?w
         (Settle 1 (Inr (example_response 200 (js ''text/plain'') (js ''ok''))))))"
    using twice by blast
  from 1 2 3 4 5 searching_busy show ?thesis by simp
qed

end
